theory Spec2Isabelle
  imports Complex_Main "HOL-Library.AList"
begin

section \<open>Errors\<close>

text \<open>
  The exceptions the Python code and the specification name. A function that can raise
  returns \<open>py_error + 'a\<close>, with \<open>Inl\<close> for the exception.
\<close>

datatype py_error = ValueError | TypeError | KeyError | IndexError | AttributeError | DimensionMismatchError

text \<open>Sequencing of two fallible steps: the second runs only when the first returned.\<close>

fun and_then :: "py_error + 'a \<Rightarrow> ('a \<Rightarrow> py_error + 'b) \<Rightarrow> py_error + 'b" where
  "and_then (Inl e) f = Inl e"
| "and_then (Inr v) f = f v"

section \<open>Dataset\<close>

text \<open>
  \<^verbatim>\<open>gpx.Dataset(X=..., y=...)\<close> holds two aligned arrays, \<open>X\<close> of shape \<open>n \<times> d\<close> and
  \<open>y\<close> of shape \<open>n \<times> m\<close>. An array of shape \<open>n \<times> d\<close> is a list of \<open>n\<close> rows; the number
  of columns is kept beside it, since an array with no row still has a width.
\<close>

record 'a dataset =
  in_dim :: nat
  out_dim :: nat
  data_X :: "'a list list"
  data_y :: "'a list list"

text \<open>The property \<^verbatim>\<open>Dataset.n\<close>: the number of rows.\<close>

definition dataset_n :: "'a dataset \<Rightarrow> nat" where
  "dataset_n D = length (data_X D)"

text \<open>The observations of a dataset in order, each input row with its output row.\<close>

definition dataset_rows :: "'a dataset \<Rightarrow> ('a list \<times> 'a list) list" where
  "dataset_rows D = zip (data_X D) (data_y D)"

text \<open>
  Modelled from the spec: the class \<^verbatim>\<open>Dataset\<close> and its \<^verbatim>\<open>__add__\<close> (gpjax/dataset.py) are
  not among the source files. Section 3 of the specification: concatenation \<^verbatim>\<open>D1 + D2\<close>
  requires matching \<open>d\<close> and \<open>m\<close>, and produces a new dataset, the rows of \<open>D1\<close> followed by
  the rows of \<open>D2\<close>, leaving the operands as they are; section 7: incompatible dimensions
  are a \<^verbatim>\<open>DimensionMismatchError\<close>.
\<close>

definition dataset_add :: "'a dataset \<Rightarrow> 'a dataset \<Rightarrow> py_error + 'a dataset" where
  "dataset_add D1 D2 =
     (if in_dim D1 = in_dim D2 \<and> out_dim D1 = out_dim D2
      then Inr \<lparr>in_dim = in_dim D1, out_dim = out_dim D1,
                data_X = data_X D1 @ data_X D2, data_y = data_y D1 @ data_y D2\<rparr>
      else Inl DimensionMismatchError)"

text \<open>
  The constructor \<^verbatim>\<open>gpx.Dataset(X=x, y=y)\<close> from two arrays. The width of an array is read
  off its first row (an array without rows has width 0 here).
\<close>

definition width :: "'a list list \<Rightarrow> nat" where
  "width a = (case a of [] \<Rightarrow> 0 | r # _ \<Rightarrow> length r)"

definition Dataset :: "'a list list \<Rightarrow> 'a list list \<Rightarrow> 'a dataset" where
  "Dataset x_arr y_arr = \<lparr>in_dim = width x_arr, out_dim = width y_arr, data_X = x_arr, data_y = y_arr\<rparr>"

section \<open>Array operations of the numerical library\<close>

text \<open>
  The values of the arrays are taken from any linear order: the comparisons the code makes
  (\<^verbatim>\<open>argmin\<close>, \<^verbatim>\<open>minimum\<close>) are those of the order, as they are on floating-point numbers
  that are not NaN.

  \<^verbatim>\<open>jnp.argmin(a)\<close> without an axis works on the flattened array and returns the index of
  the first occurrence of the minimum; on an array without elements it raises \<^verbatim>\<open>ValueError\<close>.
\<close>

fun argmin_scan :: "'a::linorder list \<Rightarrow> nat \<Rightarrow> 'a \<Rightarrow> nat \<Rightarrow> nat" where
  "argmin_scan [] i best best_i = best_i"
| "argmin_scan (v # vs) i best best_i =
     (if v < best then argmin_scan vs (Suc i) v i else argmin_scan vs (Suc i) best best_i)"

definition jnp_argmin :: "'a::linorder list list \<Rightarrow> py_error + nat" where
  "jnp_argmin a = (case concat a of [] \<Rightarrow> Inl ValueError | v # vs \<Rightarrow> Inr (argmin_scan vs 1 v 0))"

text \<open>
  \<^verbatim>\<open>a[i]\<close> with an index that is itself an array value, as \<^verbatim>\<open>jnp.argmin\<close> returns it: an index
  past the end is clamped to the last row; an array without rows has nothing to return.
\<close>

definition take_row :: "'a list list \<Rightarrow> nat \<Rightarrow> py_error + 'a list" where
  "take_row a i = (if a = [] then Inl IndexError else Inr (a ! min i (length a - 1)))"

text \<open>\<^verbatim>\<open>a[0][0]\<close>: the first entry of the first row.\<close>

definition item00 :: "'a list list \<Rightarrow> py_error + 'a" where
  "item00 a = (case a of (v # _) # _ \<Rightarrow> Inr v | _ \<Rightarrow> Inl IndexError)"

text \<open>\<^verbatim>\<open>jnp.minimum\<close> on two rows: the elementwise minimum.\<close>

definition jnp_minimum :: "'a::linorder list \<Rightarrow> 'a list \<Rightarrow> 'a list" where
  "jnp_minimum r1 r2 = map2 min r1 r2"

text \<open>
  \<^verbatim>\<open>jax.lax.associative_scan(f, a)\<close> along the first axis: the inclusive prefix scan, whose
  \<open>k\<close>-th row combines the rows \<open>0..k\<close> of \<open>a\<close>.
\<close>

fun scan_acc :: "('r \<Rightarrow> 'r \<Rightarrow> 'r) \<Rightarrow> 'r \<Rightarrow> 'r list \<Rightarrow> 'r list" where
  "scan_acc f acc [] = []"
| "scan_acc f acc (x # xs) = f acc x # scan_acc f (f acc x) xs"

fun associative_scan :: "('r \<Rightarrow> 'r \<Rightarrow> 'r) \<Rightarrow> 'r list \<Rightarrow> 'r list" where
  "associative_scan f [] = []"
| "associative_scan f (x # xs) = x # scan_acc f x xs"

section \<open>The collaborators outside the repository\<close>

text \<open>
  The example calls into libraries that are not part of the repository: the random-number
  generator (\<^verbatim>\<open>jr.split\<close>, \<^verbatim>\<open>jr.uniform\<close>), the bound-constrained quasi-Newton optimiser
  (\<^verbatim>\<open>ScipyBoundedMinimize(fun=..., method="l-bfgs-b").run(init, bounds=...).params\<close>) and the
  fit of the surrogate followed by its \<^verbatim>\<open>sample_approx(num_samples=1, ...)\<close>. They are
  parameters of the model; \<open>'k\<close> is the type of random keys.
\<close>

record ('k, 'a) collaborators =
  jr_split :: "'k \<Rightarrow> 'k \<times> 'k"
  jr_uniform :: "'k \<Rightarrow> nat \<times> nat \<Rightarrow> 'a list \<Rightarrow> 'a list \<Rightarrow> 'a list list"
  lbfgsb_run :: "('a list list \<Rightarrow> py_error + 'a) \<Rightarrow> 'a list list \<Rightarrow> 'a list \<times> 'a list
                   \<Rightarrow> py_error + 'a list list"
  posterior_sample :: "'a dataset \<Rightarrow> 'k \<Rightarrow> py_error + ('a list list \<Rightarrow> 'a list list)"

section \<open>Maximising the acquisition function\<close>

text \<open>
  \<^verbatim>\<open>negative_utility_fn = lambda x: sample(x)[0][0]\<close>, the function handed to the minimiser
  inside \<^verbatim>\<open>optimise_sample\<close>.
\<close>

definition negative_utility_fn :: "('a list list \<Rightarrow> 'a list list) \<Rightarrow> 'a list list \<Rightarrow> py_error + 'a" where
  "negative_utility_fn sample x = item00 (sample x)"

text \<open>
  \<^verbatim>\<open>optimise_sample(sample, key, lower_bound, upper_bound, num_initial_sample_points)\<close>:
  draw the candidates, evaluate the sample at all of them, take the candidate at the
  \<^verbatim>\<open>argmin\<close>, and return what the bounded minimiser returns when started there.
\<close>

definition optimise_sample ::
  "('k, 'a::linorder) collaborators \<Rightarrow> ('a list list \<Rightarrow> 'a list list) \<Rightarrow> 'k \<Rightarrow> 'a list \<Rightarrow> 'a list \<Rightarrow> nat
     \<Rightarrow> py_error + 'a list list" where
  "optimise_sample E sample key lower_bound upper_bound num_initial_sample_points =
     (let initial_sample_points =
            jr_uniform E key (num_initial_sample_points, length lower_bound) lower_bound upper_bound;
          initial_sample_y = sample initial_sample_points
      in and_then (jnp_argmin initial_sample_y) (\<lambda>i.
         and_then (take_row initial_sample_points i) (\<lambda>row.
           let best_x = [row];
               bounds = (lower_bound, upper_bound)
           in lbfgsb_run E (negative_utility_fn sample) best_x bounds)))"

text \<open>A point array lies in the box when every coordinate of every row is between its bounds.\<close>

definition within_bounds :: "'a::linorder list \<Rightarrow> 'a list \<Rightarrow> 'a list list \<Rightarrow> bool" where
  "within_bounds lower_bound upper_bound x =
     list_all (\<lambda>row. list_all2 (\<le>) lower_bound row \<and> list_all2 (\<le>) row upper_bound) x"

section \<open>Approximate sample paths\<close>

text \<open>
  A Python number handed to a count argument: the tests pass \<^verbatim>\<open>-1\<close>, \<^verbatim>\<open>0.5\<close>, \<^verbatim>\<open>1\<close>, \<^verbatim>\<open>-10\<close>,
  \<^verbatim>\<open>100\<close> and \<^verbatim>\<open>10_000\<close>.
\<close>

datatype py_number = PyInt int | PyFloat real

fun positive_integer :: "py_number \<Rightarrow> bool" where
  "positive_integer (PyInt n) = (0 < n)"
| "positive_integer (PyFloat r) = False"

fun count_of :: "py_number \<Rightarrow> nat" where
  "count_of (PyInt n) = nat n"
| "count_of (PyFloat r) = 0"

text \<open>
  Modelled from the spec: the method \<^verbatim>\<open>sample_approx\<close> of priors and posteriors (gpjax/gps.py)
  is not among the source files; only its calls in tests/test_gps.py and in the example are.
  Section 4.3: \<^verbatim>\<open>sample_approx(num_samples, dataset, seed, num_features)\<close> returns a batch of
  callables; \<^verbatim>\<open>num_samples\<close> is a positive integer (fails \<^verbatim>\<open>ValueError\<close> otherwise) and
  \<^verbatim>\<open>num_features\<close> is a positive integer (fails \<^verbatim>\<open>ValueError\<close> otherwise). The random-feature
  expansion that produces the paths once the counts are accepted is the parameter \<open>draw\<close>.
\<close>

definition sample_approx ::
  "(nat \<Rightarrow> 'd \<Rightarrow> 'k \<Rightarrow> nat \<Rightarrow> 's) \<Rightarrow> py_number \<Rightarrow> 'd \<Rightarrow> 'k \<Rightarrow> py_number \<Rightarrow> py_error + 's" where
  "sample_approx draw num_samples train_data key num_features =
     (if \<not> positive_integer num_samples then Inl ValueError
      else if \<not> positive_integer num_features then Inl ValueError
      else Inr (draw (count_of num_samples) train_data key (count_of num_features)))"

section \<open>Thompson sampling\<close>

text \<open>
  Modelled from the spec: the builder \<^verbatim>\<open>ThompsonSampling\<close>
  (gpjax/decision_making/acquisition_functions.py) is not among the source files; only its
  import in gpjax/decision_making/__init__.py is. Section 4.4: it draws one posterior sample
  path \<open>g\<close> (the sampler of section 4.3, asked for one sample) and returns \<open>x \<mapsto> -g(x)\<close>.
  The sampler of the posterior, with its data and number of features fixed, is the
  parameter \<open>sampler\<close>.
\<close>

definition ThompsonSampling ::
  "(py_number \<Rightarrow> 'k \<Rightarrow> py_error + ('a list list \<Rightarrow> 'a list list)) \<Rightarrow> 'k
     \<Rightarrow> py_error + ('a::uminus list list \<Rightarrow> 'a list list)" where
  "ThompsonSampling sampler key =
     and_then (sampler (PyInt 1) key) (\<lambda>g. Inr (\<lambda>x. map (map uminus) (g x)))"

text \<open>
  Maximisers and minimisers of a scalar function that may raise, over a set of points: the
  function returns at every point of the set, and no point of the set does better.
\<close>

definition is_maximiser_of :: "('p \<Rightarrow> py_error + 'a::linorder) \<Rightarrow> 'p set \<Rightarrow> 'p \<Rightarrow> bool" where
  "is_maximiser_of f S x =
     (x \<in> S \<and> (\<exists>fx. f x = Inr fx \<and> (\<forall>z\<in>S. \<exists>fz. f z = Inr fz \<and> fz \<le> fx)))"

definition is_minimiser_of :: "('p \<Rightarrow> py_error + 'a::linorder) \<Rightarrow> 'p set \<Rightarrow> 'p \<Rightarrow> bool" where
  "is_minimiser_of f S x =
     (x \<in> S \<and> (\<exists>fx. f x = Inr fx \<and> (\<forall>z\<in>S. \<exists>fz. f z = Inr fz \<and> fx \<le> fz)))"

section \<open>The optimisation loop of the example\<close>

text \<open>\<^verbatim>\<open>forrester(x) = (6 * x - 2) ** 2 * jnp.sin(12 * x - 4)\<close>, elementwise on an array.\<close>

definition forrester :: "real list list \<Rightarrow> real list list" where
  "forrester x = map (map (\<lambda>v. (6 * v - 2) ^ 2 * sin (12 * v - 4))) x"

text \<open>
  The body of \<^verbatim>\<open>for i in range(bo_iters)\<close>: split the key, fit the surrogate and draw one
  sample path, minimise the path from 100 candidates, evaluate the objective at the point
  found and concatenate the observation to the dataset. The plot between these steps has no
  effect on the data.
\<close>

fun bo_loop ::
  "('k, 'a::linorder) collaborators \<Rightarrow> ('a list list \<Rightarrow> 'a list list) \<Rightarrow> 'a list \<Rightarrow> 'a list \<Rightarrow> nat \<Rightarrow> 'k
     \<Rightarrow> 'a dataset \<Rightarrow> py_error + 'a dataset" where
  "bo_loop E objective lower_bound upper_bound 0 key D = Inr D"
| "bo_loop E objective lower_bound upper_bound (Suc n) key D =
     (case jr_split E key of (key', subkey) \<Rightarrow>
        (case posterior_sample E D subkey of Inl e \<Rightarrow> Inl e
         | Inr approx_sample \<Rightarrow>
        (case optimise_sample E approx_sample subkey lower_bound upper_bound 100 of Inl e \<Rightarrow> Inl e
         | Inr x_star \<Rightarrow>
        (case dataset_add D (Dataset x_star (objective x_star)) of Inl e \<Rightarrow> Inl e
         | Inr D' \<Rightarrow> bo_loop E objective lower_bound upper_bound n key' D'))))"

text \<open>
  The whole run: the initial design \<^verbatim>\<open>initial_x\<close> (the Halton points) is evaluated, then the
  loop runs \<^verbatim>\<open>bo_iters\<close> times.
\<close>

definition bo_run ::
  "('k, 'a::linorder) collaborators \<Rightarrow> ('a list list \<Rightarrow> 'a list list) \<Rightarrow> 'a list \<Rightarrow> 'a list \<Rightarrow> nat \<Rightarrow> 'k
     \<Rightarrow> 'a list list \<Rightarrow> py_error + 'a dataset" where
  "bo_run E objective lower_bound upper_bound bo_iters key initial_x =
     bo_loop E objective lower_bound upper_bound bo_iters key (Dataset initial_x (objective initial_x))"

text \<open>\<^verbatim>\<open>cumulative_best_y = jax.lax.associative_scan(jax.numpy.minimum, D.y)\<close>.\<close>

definition cumulative_best_y :: "'a::linorder dataset \<Rightarrow> 'a list list" where
  "cumulative_best_y D = associative_scan jnp_minimum (data_y D)"

text \<open>
  \<^verbatim>\<open>jnp.min(a)\<close>: the least entry of an array, a \<^verbatim>\<open>ValueError\<close> on an array without entries.
\<close>

definition jnp_min :: "'a::linorder list list \<Rightarrow> py_error + 'a" where
  "jnp_min a = (case concat a of [] \<Rightarrow> Inl ValueError | v # vs \<Rightarrow> Inr (fold min vs v))"

section \<open>Concrete collaborators for the worked examples\<close>

text \<open>
  Small stand-ins for the libraries, on which the functions above can be evaluated: keys
  are natural numbers; the candidates cycle through three fixed fractions of the box; one optimiser
  returns its starting point, one returns the lower corner of the box, one returns a fixed
  point, and one steps past the upper bounds.
\<close>

definition example_split :: "nat \<Rightarrow> nat \<times> nat" where
  "example_split key = (2 * key, 2 * key + 1)"

definition example_uniform :: "nat \<Rightarrow> nat \<times> nat \<Rightarrow> real list \<Rightarrow> real list \<Rightarrow> real list list" where
  "example_uniform key shape minval maxval =
     map (\<lambda>i. map2 (\<lambda>l h. l + (h - l) * ([3 / 4, 1 / 4, 1 / 2] ! (i mod 3))) minval maxval)
       [0..<fst shape]"

definition stay_run ::
  "(real list list \<Rightarrow> py_error + real) \<Rightarrow> real list list \<Rightarrow> real list \<times> real list \<Rightarrow> py_error + real list list" where
  "stay_run f init bounds = Inr init"

definition corner_run ::
  "(real list list \<Rightarrow> py_error + real) \<Rightarrow> real list list \<Rightarrow> real list \<times> real list \<Rightarrow> py_error + real list list" where
  "corner_run f init bounds = Inr [fst bounds]"

definition third_run ::
  "(real list list \<Rightarrow> py_error + real) \<Rightarrow> real list list \<Rightarrow> real list \<times> real list \<Rightarrow> py_error + real list list" where
  "third_run f init bounds = Inr [[1 / 3]]"

definition overshoot_run ::
  "(real list list \<Rightarrow> py_error + real) \<Rightarrow> real list list \<Rightarrow> real list \<times> real list \<Rightarrow> py_error + real list list" where
  "overshoot_run f init bounds = Inr [map (\<lambda>u. u + 1) (snd bounds)]"

text \<open>The sample path \<open>x \<mapsto> |x\<^sub>0 - 1/2|\<close>, vectorised over the rows, one column.\<close>

definition coord0 :: "real list \<Rightarrow> real" where
  "coord0 x = (case x of [] \<Rightarrow> 0 | u # _ \<Rightarrow> u)"

definition example_path :: "real list list \<Rightarrow> real list list" where
  "example_path a = map (\<lambda>x. [\<bar>coord0 x - 1 / 2\<bar>]) a"

definition example_posterior_sample ::
  "real dataset \<Rightarrow> nat \<Rightarrow> py_error + (real list list \<Rightarrow> real list list)" where
  "example_posterior_sample D key = Inr example_path"

definition example_draw :: "nat \<Rightarrow> nat \<Rightarrow> nat \<Rightarrow> nat \<Rightarrow> real list list \<Rightarrow> real list list" where
  "example_draw num_samples params key num_features = example_path"

definition example_env ::
  "((real list list \<Rightarrow> py_error + real) \<Rightarrow> real list list \<Rightarrow> real list \<times> real list
     \<Rightarrow> py_error + real list list) \<Rightarrow> (nat, real) collaborators" where
  "example_env run = \<lparr>jr_split = example_split, jr_uniform = example_uniform,
     lbfgsb_run = run, posterior_sample = example_posterior_sample\<rparr>"

text \<open>The first five points of the Halton sequence in base 2, as an initial design.\<close>

definition halton5 :: "real list list" where
  "halton5 = [[1 / 2], [1 / 4], [3 / 4], [1 / 8], [5 / 8]]"

text \<open>A posterior whose sampler, once the counts are accepted, returns the path above.\<close>

definition example_sampler :: "py_number \<Rightarrow> nat \<Rightarrow> py_error + (real list list \<Rightarrow> real list list)" where
  "example_sampler num_samples key = sample_approx example_draw num_samples 0 key (PyInt 500)"

section \<open>The global configuration\<close>

text \<open>
  The bijections of \<^verbatim>\<open>numpyro.distributions.transforms\<close> that \<^verbatim>\<open>get_defaults\<close> creates, and any
  other transform a caller may register, named by its class.
\<close>

datatype transform = SoftplusTransform | IdentityTransform | CholeskyTransform | OtherTransform string

text \<open>
  A \<^verbatim>\<open>ConfigDict\<close> is a mutable object: it lives in a store at an address, and a field that
  holds another \<^verbatim>\<open>ConfigDict\<close> holds its address, so that two names for one object see the
  same fields. Its fields are kept in insertion order.
\<close>

type_synonym addr = nat

datatype cfg_value =
    PRNGKey nat
  | Float real
  | Str string
  | Bijection transform
  | ConfigDictRef addr

type_synonym config_dict = "(string \<times> cfg_value) list"

text \<open>
  The state of the module \<^verbatim>\<open>gpjax/config.py\<close>: the objects allocated so far, the next free
  address, and the module variable \<^verbatim>\<open>__config\<close>, which is \<^verbatim>\<open>None\<close> or refers to a \<^verbatim>\<open>ConfigDict\<close>.
\<close>

record module_state =
  heap :: "addr \<Rightarrow> config_dict option"
  next_addr :: addr
  config_global :: "addr option"

definition initial_state :: module_state where
  "initial_state = \<lparr>heap = (\<lambda>a. None), next_addr = 0, config_global = None\<rparr>"

text \<open>
  Python's truth value of \<^verbatim>\<open>__config\<close> in \<^verbatim>\<open>if not __config\<close>: \<^verbatim>\<open>None\<close> is false, and a
  container is false when it has no entry.
\<close>

definition truthy :: "module_state \<Rightarrow> addr option \<Rightarrow> bool" where
  "truthy s r = (case r of None \<Rightarrow> False
                 | Some a \<Rightarrow> (case heap s a of None \<Rightarrow> False | Some d \<Rightarrow> d \<noteq> []))"

text \<open>The fields that \<^verbatim>\<open>get_defaults\<close> assigns to \<^verbatim>\<open>transformations\<close>, in the order of the source.\<close>

definition default_transformations :: config_dict where
  "default_transformations =
     [(''positive_transform'', Bijection SoftplusTransform),
      (''identity_transform'', Bijection IdentityTransform),
      (''triangular_transform'', Bijection CholeskyTransform),
      (''lengthscale'', Str ''positive_transform''),
      (''variance'', Str ''positive_transform''),
      (''smoothness'', Str ''positive_transform''),
      (''shift'', Str ''positive_transform''),
      (''obs_noise'', Str ''positive_transform''),
      (''latent'', Str ''identity_transform''),
      (''basis_fns'', Str ''identity_transform''),
      (''offset'', Str ''identity_transform''),
      (''inducing_inputs'', Str ''identity_transform''),
      (''variational_mean'', Str ''identity_transform''),
      (''variational_root_covariance'', Str ''triangular_transform''),
      (''natural_vector'', Str ''identity_transform''),
      (''natural_matrix'', Str ''identity_transform''),
      (''expectation_vector'', Str ''identity_transform''),
      (''expectation_matrix'', Str ''identity_transform'')]"

text \<open>
  \<^verbatim>\<open>get_defaults()\<close>: a fresh \<^verbatim>\<open>config\<close> and a fresh \<^verbatim>\<open>transformations\<close> are built on every
  call; \<^verbatim>\<open>config\<close> becomes the global only if \<^verbatim>\<open>not __config\<close>; the global is returned.
\<close>

definition get_defaults :: "module_state \<Rightarrow> addr \<times> module_state" where
  "get_defaults s =
     (let config = next_addr s;
          transformations = Suc (next_addr s);
          s1 = s\<lparr>heap := (heap s)
                   (config \<mapsto> [(''key'', PRNGKey 123), (''jitter'', Float (1 / 1000000)),
                               (''transformations'', ConfigDictRef transformations)],
                    transformations \<mapsto> default_transformations),
                 next_addr := Suc (Suc (next_addr s))\<rparr>
      in case config_global s1 of
           None \<Rightarrow> (config, s1\<lparr>config_global := Some config\<rparr>)
         | Some a \<Rightarrow> if \<not> truthy s1 (Some a) then (config, s1\<lparr>config_global := Some config\<rparr>)
                     else (a, s1))"

text \<open>
  Item assignment \<^verbatim>\<open>d[k] = v\<close> on a \<^verbatim>\<open>ConfigDict\<close>. The library (ml_collections) may refuse
  the assignment, for a key it does not admit or for a change of the type of an existing
  field; what it refuses is a parameter, \<open>validate\<close>, which returns the exception raised,
  if any. An accepted assignment replaces the value in place or appends the new field.
\<close>

definition setitem ::
  "(config_dict \<Rightarrow> string \<Rightarrow> cfg_value \<Rightarrow> py_error option) \<Rightarrow> addr \<Rightarrow> string \<Rightarrow> cfg_value
     \<Rightarrow> module_state \<Rightarrow> py_error option \<times> module_state" where
  "setitem validate a k v s =
     (case heap s a of
        None \<Rightarrow> (Some AttributeError, s)
      | Some d \<Rightarrow> (case validate d k v of
                     Some e \<Rightarrow> (Some e, s)
                   | None \<Rightarrow> (None, s\<lparr>heap := (heap s)(a \<mapsto> AList.update k v d)\<rparr>)))"

text \<open>\<^verbatim>\<open>__config.transformations\<close>: the object the field of the global refers to.\<close>

definition global_transformations :: "module_state \<Rightarrow> py_error + addr" where
  "global_transformations s =
     (case config_global s of
        None \<Rightarrow> Inl AttributeError
      | Some a \<Rightarrow> (case heap s a of
                     None \<Rightarrow> Inl AttributeError
                   | Some d \<Rightarrow> (case map_of d ''transformations'' of
                                  Some (ConfigDictRef t) \<Rightarrow> Inr t
                                | Some _ \<Rightarrow> Inl TypeError
                                | None \<Rightarrow> Inl AttributeError)))"

text \<open>
  \<^verbatim>\<open>add_parameter(param_name, bijection)\<close>. It returns nothing; the first component is the
  exception it raised, if any, and the second the state it left.
\<close>

definition add_parameter ::
  "(config_dict \<Rightarrow> string \<Rightarrow> cfg_value \<Rightarrow> py_error option) \<Rightarrow> string \<Rightarrow> transform
     \<Rightarrow> module_state \<Rightarrow> py_error option \<times> module_state" where
  "add_parameter validate param_name bijection' s =
     (let lookup_name = param_name @ ''_transform'';
          s1 = snd (get_defaults s)
      in case global_transformations s1 of
           Inl e \<Rightarrow> (Some e, s1)
         | Inr t \<Rightarrow> (case setitem validate t lookup_name (Bijection bijection') s1 of
                       (Some e, s2) \<Rightarrow> (Some e, s2)
                     | (None, s2) \<Rightarrow>
                         (case global_transformations s2 of
                            Inl e \<Rightarrow> (Some e, s2)
                          | Inr t' \<Rightarrow> setitem validate t' param_name (Str lookup_name) s2)))"

text \<open>The states the module can be in: those its two functions produce from the start.\<close>

inductive reachable :: "(config_dict \<Rightarrow> string \<Rightarrow> cfg_value \<Rightarrow> py_error option) \<Rightarrow> module_state \<Rightarrow> bool"
  for validate where
  start: "reachable validate initial_state"
| after_get_defaults: "reachable validate s \<Longrightarrow> reachable validate (snd (get_defaults s))"
| after_add_parameter:
    "reachable validate s \<Longrightarrow> reachable validate (snd (add_parameter validate param_name bijection' s))"

text \<open>The state after \<open>n\<close> further calls of \<^verbatim>\<open>get_defaults\<close>.\<close>

fun calls :: "nat \<Rightarrow> module_state \<Rightarrow> module_state" where
  "calls 0 s = s"
| "calls (Suc n) s = calls n (snd (get_defaults s))"

text \<open>The entry of key \<open>k\<close> in the transformations of the \<^verbatim>\<open>ConfigDict\<close> at address \<open>a\<close>.\<close>

definition transformation_entry :: "module_state \<Rightarrow> addr \<Rightarrow> string \<Rightarrow> cfg_value option" where
  "transformation_entry s a k =
     (case heap s a of
        None \<Rightarrow> None
      | Some d \<Rightarrow> (case map_of d ''transformations'' of
                     Some (ConfigDictRef t) \<Rightarrow> (case heap s t of None \<Rightarrow> None | Some td \<Rightarrow> map_of td k)
                   | _ \<Rightarrow> None))"

text \<open>
  What ml_collections checks, as far as its documentation says: a key with a dot is a
  \<^verbatim>\<open>KeyError\<close>, and an existing field only takes a value of its own kind, else \<^verbatim>\<open>TypeError\<close>.
\<close>

fun same_kind :: "cfg_value \<Rightarrow> cfg_value \<Rightarrow> bool" where
  "same_kind (PRNGKey _) (PRNGKey _) = True"
| "same_kind (Float _) (Float _) = True"
| "same_kind (Str _) (Str _) = True"
| "same_kind (Bijection b) (Bijection b') = (case (b, b') of
       (OtherTransform c, OtherTransform c') \<Rightarrow> c = c'
     | (OtherTransform c, _) \<Rightarrow> False
     | (_, OtherTransform c') \<Rightarrow> False
     | _ \<Rightarrow> b = b')"
| "same_kind (ConfigDictRef _) (ConfigDictRef _) = True"
| "same_kind _ _ = False"

definition typed_validate :: "config_dict \<Rightarrow> string \<Rightarrow> cfg_value \<Rightarrow> py_error option" where
  "typed_validate d k v =
     (if CHR ''.'' \<in> set k then Some KeyError
      else case map_of d k of
             None \<Rightarrow> None
           | Some old \<Rightarrow> if same_kind old v then None else Some TypeError)"

text \<open>
  The shape of a registered configuration: the global, when set, refers to an allocated,
  non-empty \<^verbatim>\<open>ConfigDict\<close> whose field \<^verbatim>\<open>transformations\<close> refers to another allocated one.
\<close>

definition registered_ok :: "module_state \<Rightarrow> bool" where
  "registered_ok s =
     (case config_global s of
        None \<Rightarrow> True
      | Some a \<Rightarrow> a < next_addr s \<and>
          (\<exists>d t td. heap s a = Some d \<and> d \<noteq> [] \<and> map_of d ''transformations'' = Some (ConfigDictRef t)
             \<and> t < next_addr s \<and> t \<noteq> a \<and> heap s t = Some td))"

section \<open>Dataset concatenation\<close>

text \<open>
  C9. Concatenation of datasets is associative and keeps the order of the rows: for
  datasets \<open>D1\<close>, \<open>D2\<close>, \<open>D3\<close> of the same input and output dimensions (each with as many
  input rows as output rows), \<open>(D1 + D2) + D3\<close> and \<open>D1 + (D2 + D3)\<close> both succeed and are
  the same dataset, whose rows are those of \<open>D1\<close>, then those of \<open>D2\<close>, then those of
  \<open>D3\<close>.
\<close>

theorem dataset_add_assoc:
  assumes "in_dim D1 = in_dim D2" and "in_dim D2 = in_dim D3"
    and "out_dim D1 = out_dim D2" and "out_dim D2 = out_dim D3"
    and "length (data_X D1) = length (data_y D1)"
    and "length (data_X D2) = length (data_y D2)"
  shows "\<exists>D. and_then (dataset_add D1 D2) (\<lambda>D12. dataset_add D12 D3) = Inr D
           \<and> and_then (dataset_add D2 D3) (\<lambda>D23. dataset_add D1 D23) = Inr D
           \<and> data_X D = data_X D1 @ data_X D2 @ data_X D3
           \<and> data_y D = data_y D1 @ data_y D2 @ data_y D3
           \<and> dataset_rows D = dataset_rows D1 @ dataset_rows D2 @ dataset_rows D3"
proof -
  let ?D = "\<lparr>in_dim = in_dim D1, out_dim = out_dim D1,
             data_X = data_X D1 @ data_X D2 @ data_X D3,
             data_y = data_y D1 @ data_y D2 @ data_y D3\<rparr>"
  have l: "and_then (dataset_add D1 D2) (\<lambda>D12. dataset_add D12 D3) = Inr ?D"
    using assms(1-4) by (simp add: dataset_add_def)
  have r: "and_then (dataset_add D2 D3) (\<lambda>D23. dataset_add D1 D23) = Inr ?D"
    using assms(1-4) by (simp add: dataset_add_def)
  have rows: "dataset_rows ?D = dataset_rows D1 @ dataset_rows D2 @ dataset_rows D3"
    using assms(5,6) by (simp add: dataset_rows_def)
  from l r rows show ?thesis by simp
qed

theorem dataset_add_assoc_witness:
  "\<exists>D. and_then (dataset_add \<lparr>in_dim = 1, out_dim = 1, data_X = [[1::int]], data_y = [[10]]\<rparr>
                    \<lparr>in_dim = 1, out_dim = 1, data_X = [[2], [3]], data_y = [[20], [30]]\<rparr>)
          (\<lambda>D12. dataset_add D12 \<lparr>in_dim = 1, out_dim = 1, data_X = [[4]], data_y = [[40]]\<rparr>) = Inr D
     \<and> data_X D = [[1], [2], [3], [4]] \<and> data_y D = [[10], [20], [30], [40]]
     \<and> dataset_rows D = [([1], [10]), ([2], [20]), ([3], [30]), ([4], [40])]"
  using dataset_add_assoc [of
      "\<lparr>in_dim = 1, out_dim = 1, data_X = [[1::int]], data_y = [[10]]\<rparr>"
      "\<lparr>in_dim = 1, out_dim = 1, data_X = [[2], [3]], data_y = [[20], [30]]\<rparr>"
      "\<lparr>in_dim = 1, out_dim = 1, data_X = [[4]], data_y = [[40]]\<rparr>"]
  by (auto simp: dataset_rows_def)

section \<open>The starting point of the local optimiser\<close>

lemma argmin_scan_props:
  "bi < length pre \<Longrightarrow> i = length pre \<Longrightarrow> pre ! bi = best \<Longrightarrow> (\<forall>j<length pre. best \<le> pre ! j)
   \<Longrightarrow> (\<forall>j<bi. best < pre ! j)
   \<Longrightarrow> argmin_scan vs i best bi < length (pre @ vs)
     \<and> (\<forall>j<length (pre @ vs). (pre @ vs) ! argmin_scan vs i best bi \<le> (pre @ vs) ! j)
     \<and> (\<forall>j<argmin_scan vs i best bi. (pre @ vs) ! argmin_scan vs i best bi < (pre @ vs) ! j)"
proof (induction vs arbitrary: pre i best bi)
  case Nil
  then show ?case by simp
next
  case (Cons v vs)
  show ?case
  proof (cases "v < best")
    case True
    have "argmin_scan vs (Suc i) v i < length ((pre @ [v]) @ vs)
     \<and> (\<forall>j<length ((pre @ [v]) @ vs). ((pre @ [v]) @ vs) ! argmin_scan vs (Suc i) v i \<le> ((pre @ [v]) @ vs) ! j)
     \<and> (\<forall>j<argmin_scan vs (Suc i) v i. ((pre @ [v]) @ vs) ! argmin_scan vs (Suc i) v i < ((pre @ [v]) @ vs) ! j)"
      apply (rule Cons.IH)
      using Cons.prems True by (auto simp: nth_append less_Suc_eq)
    with True show ?thesis by simp
  next
    case False
    have "argmin_scan vs (Suc i) best bi < length ((pre @ [v]) @ vs)
     \<and> (\<forall>j<length ((pre @ [v]) @ vs). ((pre @ [v]) @ vs) ! argmin_scan vs (Suc i) best bi \<le> ((pre @ [v]) @ vs) ! j)
     \<and> (\<forall>j<argmin_scan vs (Suc i) best bi. ((pre @ [v]) @ vs) ! argmin_scan vs (Suc i) best bi < ((pre @ [v]) @ vs) ! j)"
      apply (rule Cons.IH)
      using Cons.prems False by (auto simp: nth_append less_Suc_eq)
    with False show ?thesis by simp
  qed
qed


lemma concat_single_column: "concat (map (\<lambda>x. [h x]) pts) = map h pts"
  by (induction pts) simp_all

lemma jnp_argmin_single_column:
  assumes "pts \<noteq> []"
  shows "\<exists>i<length pts. jnp_argmin (map (\<lambda>x. [h x]) pts) = Inr i
           \<and> (\<forall>j<length pts. h (pts ! i) \<le> h (pts ! j))
           \<and> (\<forall>j<i. h (pts ! i) < h (pts ! j))"
proof -
  from assms obtain p ps where pts: "pts = p # ps" by (cases pts) auto
  let ?i = "argmin_scan (map h ps) 1 (h p) 0"
  have props: "?i < length ([h p] @ map h ps)
     \<and> (\<forall>j<length ([h p] @ map h ps). ([h p] @ map h ps) ! ?i \<le> ([h p] @ map h ps) ! j)
     \<and> (\<forall>j< ?i. ([h p] @ map h ps) ! ?i < ([h p] @ map h ps) ! j)"
    by (rule argmin_scan_props) simp_all
  have eq: "[h p] @ map h ps = map h pts" by (simp add: pts)
  have arg: "jnp_argmin (map (\<lambda>x. [h x]) pts) = Inr ?i"
    by (simp add: jnp_argmin_def pts concat_single_column)
  from props have i: "?i < length pts" by (simp add: pts)
  from props have le: "\<forall>j<length pts. h (pts ! ?i) \<le> h (pts ! j)"
    unfolding eq using i by auto
  from props have lt: "\<forall>j< ?i. h (pts ! ?i) < h (pts ! j)"
    unfolding eq using i by auto
  from arg i le lt show ?thesis by blast
qed

text \<open>
  C5. For every acquisition function \<open>\<alpha>\<close> (the sample handed to \<^verbatim>\<open>optimise_sample\<close> is its
  negation, one column per point) and every box, when \<open>k > 0\<close> candidates are drawn:
  the sample is evaluated at all \<open>k\<close> candidates, and the result of \<^verbatim>\<open>optimise_sample\<close> is the
  result of the bounded quasi-Newton optimiser started from one candidate, the one of index
  \<open>i\<close>, which has the best acquisition value of all \<open>k\<close>, and strictly better than every
  candidate before it: among candidates that tie for the best value the first is chosen.
\<close>

theorem optimise_sample_start:
  fixes \<alpha> :: "'a list \<Rightarrow> 'a::linordered_ab_group_add"
  assumes k: "0 < k"
    and drawn: "length (jr_uniform E key (k, length lower_bound) lower_bound upper_bound) = k"
    and neg: "\<forall>a. sample a = map (\<lambda>x. [- \<alpha> x]) a"
  shows "\<exists>i<k. optimise_sample E sample key lower_bound upper_bound k =
             lbfgsb_run E (negative_utility_fn sample)
               [jr_uniform E key (k, length lower_bound) lower_bound upper_bound ! i]
               (lower_bound, upper_bound)
           \<and> length (sample (jr_uniform E key (k, length lower_bound) lower_bound upper_bound)) = k
           \<and> (\<forall>j<k. \<alpha> (jr_uniform E key (k, length lower_bound) lower_bound upper_bound ! j)
                    \<le> \<alpha> (jr_uniform E key (k, length lower_bound) lower_bound upper_bound ! i))
           \<and> (\<forall>j<i. \<alpha> (jr_uniform E key (k, length lower_bound) lower_bound upper_bound ! j)
                    < \<alpha> (jr_uniform E key (k, length lower_bound) lower_bound upper_bound ! i))"
proof -
  let ?pts = "jr_uniform E key (k, length lower_bound) lower_bound upper_bound"
  from k drawn have ne: "?pts \<noteq> []" by auto
  from jnp_argmin_single_column [OF ne, of "\<lambda>x. - \<alpha> x"]
  obtain i where i: "i < length ?pts"
    and arg: "jnp_argmin (map (\<lambda>x. [- \<alpha> x]) ?pts) = Inr i"
    and le: "\<forall>j<length ?pts. - \<alpha> (?pts ! i) \<le> - \<alpha> (?pts ! j)"
    and lt: "\<forall>j<i. - \<alpha> (?pts ! i) < - \<alpha> (?pts ! j)"
    by blast
  have sample_pts: "sample ?pts = map (\<lambda>x. [- \<alpha> x]) ?pts" using neg by simp
  have "min i (length ?pts - 1) = i" using i by arith
  then have row: "take_row ?pts i = Inr (?pts ! i)"
    using ne by (simp add: take_row_def)
  have run: "optimise_sample E sample key lower_bound upper_bound k =
      lbfgsb_run E (negative_utility_fn sample) [?pts ! i] (lower_bound, upper_bound)"
    by (simp add: optimise_sample_def Let_def sample_pts arg row)
  have len: "length (sample ?pts) = k" using sample_pts drawn by simp
  from i drawn have ik: "i < k" by simp
  from le drawn have le': "\<forall>j<k. \<alpha> (?pts ! j) \<le> \<alpha> (?pts ! i)" by simp
  from lt have lt': "\<forall>j<i. \<alpha> (?pts ! j) < \<alpha> (?pts ! i)" by simp
  from ik run len le' lt' show ?thesis by blast
qed


lemma example_pts3: "example_uniform key (3, Suc 0) [0] [1] = [[3 / 4], [1 / 4], [1 / 2]]"
proof -
  have u: "[0..<3::nat] = [0, 1, 2]" by (simp add: numeral_3_eq_3)
  show ?thesis by (simp add: example_uniform_def u)
qed

theorem optimise_sample_start_witness:
  "\<exists>i<3. optimise_sample (example_env stay_run) example_path 42 [0] [1] 3 =
             lbfgsb_run (example_env stay_run) (negative_utility_fn example_path)
               [jr_uniform (example_env stay_run) 42 (3, length [0::real]) [0] [1] ! i] ([0], [1])
         \<and> optimise_sample (example_env stay_run) example_path 42 [0] [1] 3 = Inr [[1 / 2]]"
proof -
  have h1: "(0::nat) < 3" by simp
  have h2: "length (jr_uniform (example_env stay_run) 42 (3, length [0::real]) [0] [1]) = 3"
    by (simp add: example_env_def example_uniform_def)
  have h3: "\<forall>a. example_path a = map (\<lambda>x. [- (- \<bar>coord0 x - 1 / 2\<bar>)]) a"
    by (simp add: example_path_def)
  have v: "optimise_sample (example_env stay_run) example_path 42 [0] [1] 3 = Inr [[1 / 2]]"
    by (simp add: optimise_sample_def example_env_def example_pts3 example_path_def coord0_def
        jnp_argmin_def take_row_def stay_run_def)
  from optimise_sample_start [OF h1 h2 h3] v show ?thesis by blast
qed

section \<open>The bounds of the returned point\<close>

lemma take_row_mem: "take_row a i = Inr row \<Longrightarrow> row \<in> set a"
proof -
  assume h: "take_row a i = Inr row"
  then have ne: "a \<noteq> []" by (auto simp: take_row_def split: if_splits)
  then have "min i (length a - 1) < length a" by (cases a) auto
  then have "a ! min i (length a - 1) \<in> set a" by (rule nth_mem)
  with h ne show ?thesis by (simp add: take_row_def)
qed

text \<open>
  C6, as amended. \<^verbatim>\<open>optimise_sample\<close> does not clip: the point it returns is the point the
  bounded optimiser returned when started from one of the drawn candidates with the bounds
  \<open>(lower_bound, upper_bound)\<close>. So the returned point lies within the bounds whenever the
  results of the optimiser for these bounds do.
\<close>

theorem optimise_sample_returns_optimiser_result:
  assumes run: "optimise_sample E sample key lower_bound upper_bound k = Inr x_star"
  shows "(\<exists>row \<in> set (jr_uniform E key (k, length lower_bound) lower_bound upper_bound).
            lbfgsb_run E (negative_utility_fn sample) [row] (lower_bound, upper_bound) = Inr x_star)
         \<and> ((\<forall>f init x. lbfgsb_run E f init (lower_bound, upper_bound) = Inr x
                \<longrightarrow> within_bounds lower_bound upper_bound x)
              \<longrightarrow> within_bounds lower_bound upper_bound x_star)"
proof -
  let ?pts = "jr_uniform E key (k, length lower_bound) lower_bound upper_bound"
  from run obtain i where arg: "jnp_argmin (sample ?pts) = Inr i"
    by (cases "jnp_argmin (sample ?pts)") (simp_all add: optimise_sample_def)
  from run arg obtain row where row: "take_row ?pts i = Inr row"
    by (cases "take_row ?pts i") (simp_all add: optimise_sample_def)
  from run arg row
  have res: "lbfgsb_run E (negative_utility_fn sample) [row] (lower_bound, upper_bound) = Inr x_star"
    by (simp add: optimise_sample_def)
  from row have mem: "row \<in> set ?pts" by (rule take_row_mem)
  from res mem show ?thesis by blast
qed

theorem optimise_sample_returns_optimiser_result_witness:
  "optimise_sample (example_env corner_run) example_path 42 [0] [1] 3 = Inr [[0]]
   \<and> within_bounds [0] [1] [[0::real]]"
proof -
  have v: "optimise_sample (example_env corner_run) example_path 42 [0] [1] 3 = Inr [[0]]"
    by (simp add: optimise_sample_def example_env_def example_pts3 example_path_def coord0_def
        jnp_argmin_def take_row_def corner_run_def)
  have c: "\<forall>f init x. lbfgsb_run (example_env corner_run) f init ([0], [1]) = Inr x
                \<longrightarrow> within_bounds [0] [1] x"
    by (auto simp: example_env_def corner_run_def within_bounds_def)
  from optimise_sample_returns_optimiser_result [OF v] c v show ?thesis by blast
qed

text \<open>
  The claim as stated fails: with an optimiser that steps past the upper bound, the point
  returned for the box \<open>[0, 1]\<close> is \<open>2\<close>.
\<close>

theorem optimise_sample_overshoot_counterexample:
  "optimise_sample (example_env overshoot_run) example_path 42 [0] [1] 3 = Inr [[2]]
   \<and> \<not> within_bounds [0] [1] [[2::real]]"
  by (simp add: optimise_sample_def example_env_def example_pts3 example_path_def coord0_def
        jnp_argmin_def take_row_def overshoot_run_def within_bounds_def)

section \<open>The preconditions of the approximate sampler\<close>

text \<open>
  C4. \<^verbatim>\<open>sample_approx\<close> raises \<^verbatim>\<open>ValueError\<close> whenever \<^verbatim>\<open>num_samples\<close> is not a positive integer
  and whenever \<^verbatim>\<open>num_features\<close> is not a positive integer, whatever the data, the parameters
  and the key; with two positive integers it returns.
\<close>

theorem sample_approx_rejects_bad_counts:
  "(\<not> positive_integer num_samples \<or> \<not> positive_integer num_features
      \<longrightarrow> sample_approx draw num_samples train_data key num_features = Inl ValueError)
   \<and> (positive_integer num_samples \<and> positive_integer num_features
      \<longrightarrow> (\<exists>paths. sample_approx draw num_samples train_data key num_features = Inr paths))"
  by (simp add: sample_approx_def)

theorem sample_approx_rejects_bad_counts_witness:
  "sample_approx example_draw (PyInt (- 1)) 0 123 (PyInt 100) = Inl ValueError
   \<and> sample_approx example_draw (PyFloat (1 / 2)) 0 123 (PyInt 100) = Inl ValueError
   \<and> sample_approx example_draw (PyInt 1) 0 123 (PyInt (- 10)) = Inl ValueError
   \<and> sample_approx example_draw (PyInt 1) 0 123 (PyFloat (1 / 2)) = Inl ValueError
   \<and> sample_approx example_draw (PyInt 0) 0 123 (PyInt 100) = Inl ValueError
   \<and> (\<exists>paths. sample_approx example_draw (PyInt 1) 0 123 (PyInt 100) = Inr paths)"
  using sample_approx_rejects_bad_counts [of "PyInt (- 1)" "PyInt 100" example_draw 0 123]
    sample_approx_rejects_bad_counts [of "PyFloat (1 / 2)" "PyInt 100" example_draw 0 123]
    sample_approx_rejects_bad_counts [of "PyInt 1" "PyInt (- 10)" example_draw 0 123]
    sample_approx_rejects_bad_counts [of "PyInt 1" "PyFloat (1 / 2)" example_draw 0 123]
    sample_approx_rejects_bad_counts [of "PyInt 0" "PyInt 100" example_draw 0 123]
    sample_approx_rejects_bad_counts [of "PyInt 1" "PyInt 100" example_draw 0 123]
  by simp

section \<open>The running best of the optimisation loop\<close>

lemma bo_loop_extends:
  "bo_loop E objective lo hi n key D = Inr D' \<Longrightarrow>
   \<exists>new_X new_y. data_X D' = data_X D @ new_X \<and> data_y D' = data_y D @ new_y"
proof (induction n arbitrary: key D)
  case 0
  then show ?case by simp
next
  case (Suc n)
  obtain key' subkey where sp: "jr_split E key = (key', subkey)" by (cases "jr_split E key")
  from Suc.prems sp obtain approx_sample where ps: "posterior_sample E D subkey = Inr approx_sample"
    by (cases "posterior_sample E D subkey") simp_all
  from Suc.prems sp ps obtain x_star where os: "optimise_sample E approx_sample subkey lo hi 100 = Inr x_star"
    by (cases "optimise_sample E approx_sample subkey lo hi 100") simp_all
  from Suc.prems sp ps os obtain D1 where add: "dataset_add D (Dataset x_star (objective x_star)) = Inr D1"
    by (cases "dataset_add D (Dataset x_star (objective x_star))") simp_all
  from Suc.prems sp ps os add have rest: "bo_loop E objective lo hi n key' D1 = Inr D'" by simp
  from add have d1: "data_X D1 = data_X D @ x_star" "data_y D1 = data_y D @ objective x_star"
    by (auto simp: dataset_add_def Dataset_def split: if_splits)
  from Suc.IH [OF rest] obtain nx ny where "data_X D' = data_X D1 @ nx" "data_y D' = data_y D1 @ ny"
    by blast
  with d1 show ?case by simp
qed

lemma length_scan_acc: "length (scan_acc f a xs) = length xs"
  by (induction xs arbitrary: a) simp_all

lemma length_associative_scan: "length (associative_scan f xs) = length xs"
  by (cases xs) (simp_all add: length_scan_acc)

lemma scan_acc_nth: "k < length xs \<Longrightarrow> scan_acc f a xs ! k = foldl f a (take (Suc k) xs)"
proof (induction xs arbitrary: a k)
  case Nil
  then show ?case by simp
next
  case (Cons x xs)
  then show ?case by (cases k) simp_all
qed

lemma associative_scan_nth:
  "k < length (x # xs) \<Longrightarrow> associative_scan f (x # xs) ! k = foldl f x (take k xs)"
  by (cases k) (simp_all add: scan_acc_nth)

lemma foldl_minimum_le:
  "c < length (foldl jnp_minimum a rs) \<Longrightarrow> c < length a \<and> foldl jnp_minimum a rs ! c \<le> a ! c"
proof (induction rs arbitrary: a)
  case Nil
  then show ?case by simp
next
  case (Cons r rs)
  from Cons.prems have "c < length (foldl jnp_minimum (jnp_minimum a r) rs)" by simp
  from Cons.IH [OF this]
  have c: "c < length (jnp_minimum a r)"
    and le: "foldl jnp_minimum (jnp_minimum a r) rs ! c \<le> jnp_minimum a r ! c" by simp_all
  from c have ca: "c < length a" and cr: "c < length r" by (simp_all add: jnp_minimum_def)
  then have "jnp_minimum a r ! c = min (a ! c) (r ! c)" by (simp add: jnp_minimum_def)
  with le ca show ?case by simp
qed

lemma scan_minimum_mono:
  assumes "i \<le> j" and "j < length rows" and "c < length (associative_scan jnp_minimum rows ! j)"
  shows "associative_scan jnp_minimum rows ! j ! c \<le> associative_scan jnp_minimum rows ! i ! c"
proof -
  from assms(2) obtain x xs where rows: "rows = x # xs" by (cases rows) auto
  from assms(1,2) have i: "i < length (x # xs)" and j: "j < length (x # xs)" by (simp_all add: rows)
  have tj: "take j xs = take i xs @ take (j - i) (drop i xs)"
    using assms(1) by (metis le_add_diff_inverse take_add)
  have sj: "associative_scan jnp_minimum rows ! j =
      foldl jnp_minimum (associative_scan jnp_minimum rows ! i) (take (j - i) (drop i xs))"
    unfolding rows associative_scan_nth [OF i] associative_scan_nth [OF j] tj by simp
  from assms(3) foldl_minimum_le [of c "associative_scan jnp_minimum rows ! i" "take (j - i) (drop i xs)"]
  show ?thesis unfolding sj by simp
qed

lemma scan_prefix:
  "k < length ys \<Longrightarrow> associative_scan f (ys @ new) ! k = associative_scan f ys ! k"
proof -
  assume k: "k < length ys"
  then obtain x xs where ys: "ys = x # xs" by (cases ys) auto
  from k have "k \<le> length xs" by (simp add: ys)
  then show ?thesis using k by (simp add: ys associative_scan_nth del: associative_scan.simps)
qed

lemma last_associative_scan:
  assumes "xs \<noteq> []"
  shows "last (associative_scan f xs) = associative_scan f xs ! (length xs - 1)"
proof -
  from assms have "length (associative_scan f xs) \<noteq> 0" by (simp add: length_associative_scan)
  then have "associative_scan f xs \<noteq> []" by (simp only: length_0_conv not_False_eq_True)
  then show ?thesis by (simp add: last_conv_nth length_associative_scan del: associative_scan.simps)
qed

lemma jnp_min_Min: "concat a \<noteq> [] \<Longrightarrow> jnp_min a = Inr (Min (set (concat a)))"
proof -
  assume "concat a \<noteq> []"
  then obtain v vs where c: "concat a = v # vs" by (cases "concat a") auto
  have "Min (set (v # vs)) = fold min vs v" by (rule Min.set_eq_fold)
  then show ?thesis by (simp add: jnp_min_def c del: set_concat)
qed

text \<open>
  C8. When the loop has run from a dataset with at least one observation (in the Forrester
  scenario: five Halton points, five iterations), the initial observations are still the
  first rows of the final dataset, the minimum over all observed values is at most the
  minimum over the initial ones, and the running best \<^verbatim>\<open>cumulative_best_y\<close> is non-increasing
  in the evaluation index; in particular its last row is at most the last row of the
  running best of the initial dataset.
\<close>

theorem running_best_non_increasing:
  assumes run: "bo_loop E objective lower_bound upper_bound bo_iters key D = Inr D'"
    and init: "concat (data_y D) \<noteq> []"
  shows "take (length (data_y D)) (data_y D') = data_y D
    \<and> (\<exists>b b'. jnp_min (data_y D) = Inr b \<and> jnp_min (data_y D') = Inr b' \<and> b' \<le> b)
    \<and> (\<forall>i j c. i \<le> j \<and> j < length (cumulative_best_y D') \<and> c < length (cumulative_best_y D' ! j)
          \<longrightarrow> cumulative_best_y D' ! j ! c \<le> cumulative_best_y D' ! i ! c)
    \<and> (\<forall>c. c < length (last (cumulative_best_y D'))
          \<longrightarrow> last (cumulative_best_y D') ! c \<le> last (cumulative_best_y D) ! c)"
proof -
  from bo_loop_extends [OF run] obtain new_y where ext: "data_y D' = data_y D @ new_y" by blast
  from init have ne: "data_y D \<noteq> []" by auto
  have p1: "take (length (data_y D)) (data_y D') = data_y D" by (simp add: ext)
  have sub: "set (concat (data_y D)) \<subseteq> set (concat (data_y D'))" by (auto simp: ext)
  from init have ne': "concat (data_y D') \<noteq> []" by (simp add: ext)
  have "Min (set (concat (data_y D'))) \<le> Min (set (concat (data_y D)))"
    by (rule Min_antimono [OF sub]) (use init in simp_all)
  then have p2: "\<exists>b b'. jnp_min (data_y D) = Inr b \<and> jnp_min (data_y D') = Inr b' \<and> b' \<le> b"
    using jnp_min_Min [OF init] jnp_min_Min [OF ne'] by simp
  have p3: "\<forall>i j c. i \<le> j \<and> j < length (cumulative_best_y D') \<and> c < length (cumulative_best_y D' ! j)
          \<longrightarrow> cumulative_best_y D' ! j ! c \<le> cumulative_best_y D' ! i ! c"
  proof (intro allI impI)
    fix i j c
    assume h: "i \<le> j \<and> j < length (cumulative_best_y D') \<and> c < length (cumulative_best_y D' ! j)"
    then have "i \<le> j" and "j < length (data_y D')"
      and "c < length (associative_scan jnp_minimum (data_y D') ! j)"
      by (simp_all add: cumulative_best_y_def length_associative_scan)
    then show "cumulative_best_y D' ! j ! c \<le> cumulative_best_y D' ! i ! c"
      unfolding cumulative_best_y_def by (rule scan_minimum_mono)
  qed
  have p4: "\<forall>c. c < length (last (cumulative_best_y D'))
          \<longrightarrow> last (cumulative_best_y D') ! c \<le> last (cumulative_best_y D) ! c"
  proof (intro allI impI)
    fix c assume c: "c < length (last (cumulative_best_y D'))"
    let ?n = "length (data_y D)" and ?n' = "length (data_y D')"
    have n: "0 < ?n" "?n \<le> ?n'" using ne by (simp_all add: ext)
    from ne have ne2: "data_y D' \<noteq> []" by (simp add: ext)
    have l': "last (cumulative_best_y D') = associative_scan jnp_minimum (data_y D') ! (?n' - 1)"
      unfolding cumulative_best_y_def by (rule last_associative_scan [OF ne2])
    have l: "last (cumulative_best_y D) = associative_scan jnp_minimum (data_y D) ! (?n - 1)"
      unfolding cumulative_best_y_def by (rule last_associative_scan [OF ne])
    have pre: "associative_scan jnp_minimum (data_y D) ! (?n - 1) =
        associative_scan jnp_minimum (data_y D') ! (?n - 1)"
      unfolding ext using n by (simp add: scan_prefix)
    have "associative_scan jnp_minimum (data_y D') ! (?n' - 1) ! c
        \<le> associative_scan jnp_minimum (data_y D') ! (?n - 1) ! c"
    proof (rule scan_minimum_mono)
      show "?n - 1 \<le> ?n' - 1" using n by arith
      show "?n' - 1 < length (data_y D')" using n by arith
      show "c < length (associative_scan jnp_minimum (data_y D') ! (?n' - 1))"
        using c by (simp only: l')
    qed
    then show "last (cumulative_best_y D') ! c \<le> last (cumulative_best_y D) ! c"
      by (simp only: l l' pre)
  qed
  from p1 p2 p3 p4 show ?thesis by blast
qed

lemma example_step:
  "optimise_sample (example_env third_run) example_path key [0] [1] 100 = Inr [[1 / 3]]"
proof -
  let ?pts = "example_uniform key (100, Suc 0) [0] [1]"
  have "length ?pts = 100" by (simp add: example_uniform_def)
  then have ne: "?pts \<noteq> []" by auto
  from jnp_argmin_single_column [OF ne, of "\<lambda>x. \<bar>coord0 x - 1 / 2\<bar>"]
  obtain i where i: "i < length ?pts" and arg: "jnp_argmin (example_path ?pts) = Inr i"
    by (auto simp: example_path_def)
  from i have "min i (length ?pts - 1) = i" by arith
  then have row: "take_row ?pts i = Inr (?pts ! i)"
    using ne by (simp add: take_row_def)
  show ?thesis
    by (simp add: optimise_sample_def example_env_def arg row third_run_def)
qed

lemma forrester_third: "forrester [[1 / 3]] = [[0]]"
  by (simp add: forrester_def)

lemma example_iteration:
  assumes "in_dim D = 1" and "out_dim D = 1"
  shows "bo_loop (example_env third_run) forrester [0] [1] (Suc n) key D =
     bo_loop (example_env third_run) forrester [0] [1] n (2 * key)
       \<lparr>in_dim = 1, out_dim = 1, data_X = data_X D @ [[1 / 3]], data_y = data_y D @ [[0]]\<rparr>"
proof -
  have E: "jr_split (example_env third_run) = example_split"
    "posterior_sample (example_env third_run) = example_posterior_sample"
    by (simp_all add: example_env_def)
  show ?thesis
    using assms
    by (simp add: E example_split_def example_posterior_sample_def example_step forrester_third
        dataset_add_def Dataset_def width_def)
qed

lemma example_run:
  "bo_run (example_env third_run) forrester [0] [1] 5 42 halton5 =
     Inr \<lparr>in_dim = 1, out_dim = 1, data_X = halton5 @ replicate 5 [1 / 3],
          data_y = forrester halton5 @ replicate 5 [0]\<rparr>"
proof -
  have five: "(5::nat) = Suc (Suc (Suc (Suc (Suc 0))))" by simp
  have w: "Dataset halton5 (forrester halton5) =
      \<lparr>in_dim = 1, out_dim = 1, data_X = halton5, data_y = forrester halton5\<rparr>"
    by (simp add: Dataset_def width_def halton5_def forrester_def)
  have r: "replicate (Suc (Suc (Suc (Suc (Suc 0))))) v = [v, v, v, v, v]" for v :: "real list"
    by simp
  show ?thesis
    unfolding bo_run_def five r w
    by (simp add: example_iteration del: bo_loop.simps(2))
qed

theorem running_best_non_increasing_witness:
  "\<exists>D'. bo_run (example_env third_run) forrester [0] [1] 5 42 halton5 = Inr D'
     \<and> data_y D' = forrester halton5 @ replicate 5 [0]
     \<and> (\<exists>b b'. jnp_min (forrester halton5) = Inr b \<and> jnp_min (data_y D') = Inr b' \<and> b' \<le> b)
     \<and> (\<forall>i j c. i \<le> j \<and> j < length (cumulative_best_y D') \<and> c < length (cumulative_best_y D' ! j)
          \<longrightarrow> cumulative_best_y D' ! j ! c \<le> cumulative_best_y D' ! i ! c)"
proof -
  let ?D = "Dataset halton5 (forrester halton5)"
  let ?D' = "\<lparr>in_dim = 1, out_dim = 1, data_X = halton5 @ replicate 5 [1 / 3],
          data_y = forrester halton5 @ replicate 5 [0]\<rparr>"
  have run: "bo_loop (example_env third_run) forrester [0] [1] 5 42 ?D = Inr ?D'"
    using example_run by (simp only: bo_run_def)
  have init: "concat (data_y ?D) \<noteq> []"
    by (simp add: Dataset_def halton5_def forrester_def)
  have y: "data_y ?D = forrester halton5" by (simp add: Dataset_def)
  from running_best_non_increasing [OF run init] example_run y show ?thesis by simp
qed

section \<open>The Thompson-sampling utility\<close>

lemma item00_single: "item00 [[v]] = Inr v"
  by (simp add: item00_def)

text \<open>
  C3. Thompson sampling asks the sampler of the posterior for exactly one sample path \<open>g\<close>
  and uses the utility \<open>x \<mapsto> -g(x)\<close>; the function that \<^verbatim>\<open>optimise_sample\<close> hands to the
  minimiser is \<open>g\<close> itself, the negated utility. So a point maximises the utility over a set
  of points exactly when it minimises the sampled function there.
\<close>

theorem thompson_sampling_maximiser_minimises_path:
  fixes g :: "'a list \<Rightarrow> 'a::linordered_ab_group_add"
  assumes drawn: "sampler (PyInt 1) key = Inr path"
    and vec: "\<forall>a. path a = map (\<lambda>x. [g x]) a"
  shows "\<exists>u. ThompsonSampling sampler key = Inr u
           \<and> (\<forall>x. u [x] = [[- g x]])
           \<and> (\<forall>x. negative_utility_fn path [x] = Inr (g x))
           \<and> (\<forall>S x. is_maximiser_of (\<lambda>z. item00 (u [z])) S x
                    = is_minimiser_of (\<lambda>z. negative_utility_fn path [z]) S x)"
proof -
  let ?u = "\<lambda>x. map (map uminus) (path x)"
  have built: "ThompsonSampling sampler key = Inr ?u"
    by (simp add: ThompsonSampling_def drawn)
  have u: "\<forall>x. ?u [x] = [[- g x]]" using vec by simp
  have nu: "\<forall>x. negative_utility_fn path [x] = Inr (g x)"
    using vec by (simp add: negative_utility_fn_def item00_single)
  have eq: "\<forall>S x. is_maximiser_of (\<lambda>z. item00 (?u [z])) S x
                    = is_minimiser_of (\<lambda>z. negative_utility_fn path [z]) S x"
    using u nu by (simp add: is_maximiser_of_def is_minimiser_of_def item00_single)
  from built u nu eq show ?thesis by blast
qed

theorem thompson_sampling_maximiser_minimises_path_witness:
  "\<exists>u. ThompsonSampling example_sampler 42 = Inr u
     \<and> u [[1 / 2]] = [[0]] \<and> u [[1]] = [[- (1 / 2)]]
     \<and> negative_utility_fn example_path [[1]] = Inr (1 / 2)
     \<and> is_maximiser_of (\<lambda>z. item00 (u [z])) {[0], [1 / 2], [1]} [1 / 2]
     \<and> is_minimiser_of (\<lambda>z. negative_utility_fn example_path [z]) {[0], [1 / 2], [1]} [1 / 2]"
proof -
  have drawn: "example_sampler (PyInt 1) 42 = Inr example_path"
    by (simp add: example_sampler_def sample_approx_def example_draw_def)
  have vec: "\<forall>a. example_path a = map (\<lambda>x. [\<bar>coord0 x - 1 / 2\<bar>]) a"
    by (simp add: example_path_def)
  have m: "is_minimiser_of (\<lambda>z. negative_utility_fn example_path [z]) {[0], [1 / 2], [1]} [1 / 2]"
    by (simp add: is_minimiser_of_def negative_utility_fn_def example_path_def item00_def coord0_def)
  from thompson_sampling_maximiser_minimises_path
    [of example_sampler 42 example_path "\<lambda>x. \<bar>coord0 x - 1 / 2\<bar>", OF drawn vec] m
  show ?thesis by (auto simp: coord0_def)
qed

section \<open>The registered configuration is never reset\<close>

lemma get_defaults_first:
  assumes "config_global s = None"
  shows "fst (get_defaults s) = next_addr s"
    and "config_global (snd (get_defaults s)) = Some (next_addr s)"
    and "registered_ok (snd (get_defaults s))"
  using assms by (simp_all add: get_defaults_def Let_def registered_ok_def)

lemma get_defaults_later:
  assumes ok: "registered_ok s" and reg: "config_global s = Some a"
  shows "get_defaults s =
     (a, s\<lparr>heap := (heap s)
             (next_addr s \<mapsto> [(''key'', PRNGKey 123), (''jitter'', Float (1 / 1000000)),
                               (''transformations'', ConfigDictRef (Suc (next_addr s)))],
              Suc (next_addr s) \<mapsto> default_transformations),
           next_addr := Suc (Suc (next_addr s))\<rparr>)"
proof -
  from ok reg obtain d where a: "a < next_addr s" and d: "heap s a = Some d" "d \<noteq> []"
    by (auto simp: registered_ok_def)
  then show ?thesis
    using reg by (simp add: get_defaults_def Let_def truthy_def)
qed

lemma get_defaults_frame:
  assumes ok: "registered_ok s" and reg: "config_global s = Some a"
  shows "fst (get_defaults s) = a"
    and "config_global (snd (get_defaults s)) = Some a"
    and "next_addr (snd (get_defaults s)) = Suc (Suc (next_addr s))"
    and "x < next_addr s \<Longrightarrow> heap (snd (get_defaults s)) x = heap s x"
  using reg by (simp_all add: get_defaults_later [OF ok reg])

lemma registered_ok_get_defaults:
  assumes ok: "registered_ok s"
  shows "registered_ok (snd (get_defaults s))"
proof (cases "config_global s")
  case None
  then show ?thesis by (rule get_defaults_first)
next
  case (Some a)
  from ok Some obtain d t td where a: "a < next_addr s" and d: "heap s a = Some d" "d \<noteq> []"
    and t: "map_of d ''transformations'' = Some (ConfigDictRef t)" "t < next_addr s" "t \<noteq> a"
      "heap s t = Some td"
    by (auto simp: registered_ok_def)
  have "heap (snd (get_defaults s)) a = Some d" "heap (snd (get_defaults s)) t = Some td"
    using get_defaults_frame(4) [OF ok Some] a d t by simp_all
  then show ?thesis
    using get_defaults_frame(2,3) [OF ok Some] a d t
    by (simp add: registered_ok_def)
qed

lemma global_transformations_Inr:
  "global_transformations s = Inr t \<Longrightarrow>
   \<exists>a d. config_global s = Some a \<and> heap s a = Some d
          \<and> map_of d ''transformations'' = Some (ConfigDictRef t)"
  by (auto simp: global_transformations_def split: option.splits cfg_value.splits)

lemma setitem_frame:
  shows "config_global (snd (setitem validate t k v s)) = config_global s"
    and "next_addr (snd (setitem validate t k v s)) = next_addr s"
    and "x \<noteq> t \<Longrightarrow> heap (snd (setitem validate t k v s)) x = heap s x"
    and "heap s t = Some td \<Longrightarrow> \<exists>td'. heap (snd (setitem validate t k v s)) t = Some td'"
  by (auto simp: setitem_def split: option.splits)

lemma registered_ok_setitem:
  assumes ok: "registered_ok s" and gt: "global_transformations s = Inr t"
  shows "registered_ok (snd (setitem validate t k v s))"
proof -
  from global_transformations_Inr [OF gt] obtain a d where
    reg: "config_global s = Some a" and d: "heap s a = Some d"
    and tr: "map_of d ''transformations'' = Some (ConfigDictRef t)" by blast
  from ok reg d tr obtain td where a: "a < next_addr s" and ne: "d \<noteq> []"
    and t: "t < next_addr s" "t \<noteq> a" "heap s t = Some td"
    by (auto simp: registered_ok_def)
  from setitem_frame(4) [OF t(3)] obtain td' where
    td': "heap (snd (setitem validate t k v s)) t = Some td'" by blast
  have ha: "heap (snd (setitem validate t k v s)) a = Some d"
    using setitem_frame(3) [of a t] t d by simp
  show ?thesis
    using reg a ne tr t td' ha
    by (simp add: registered_ok_def setitem_frame(1,2))
qed

lemma registered_ok_add_parameter:
  assumes ok: "registered_ok s"
  shows "registered_ok (snd (add_parameter validate param_name bijection' s))"
proof -
  let ?s1 = "snd (get_defaults s)"
  have ok1: "registered_ok ?s1" by (rule registered_ok_get_defaults [OF ok])
  show ?thesis
  proof (cases "global_transformations ?s1")
    case (Inl e)
    then show ?thesis using ok1 by (simp add: add_parameter_def Let_def)
  next
    case (Inr t)
    let ?r = "setitem validate t (param_name @ ''_transform'') (Bijection bijection') ?s1"
    have ok2: "registered_ok (snd ?r)" by (rule registered_ok_setitem [OF ok1 Inr])
    show ?thesis
    proof (cases "fst ?r")
      case (Some e)
      then show ?thesis using Inr ok2
        by (cases ?r) (simp add: add_parameter_def Let_def)
    next
      case None
      show ?thesis
      proof (cases "global_transformations (snd ?r)")
        case (Inl e)
        then show ?thesis using Inr None ok2
          by (cases ?r) (simp add: add_parameter_def Let_def)
      next
        case (Inr t')
        have "registered_ok (snd (setitem validate t' param_name (Str (param_name @ ''_transform'')) (snd ?r)))"
          by (rule registered_ok_setitem [OF ok2 Inr])
        then show ?thesis using \<open>global_transformations ?s1 = Inr t\<close> None Inr
          by (cases ?r) (simp add: add_parameter_def Let_def)
      qed
    qed
  qed
qed

lemma reachable_registered_ok: "reachable validate s \<Longrightarrow> registered_ok s"
proof (induction rule: reachable.induct)
  case start
  show ?case by (simp add: registered_ok_def initial_state_def)
next
  case (after_get_defaults s)
  then show ?case by (simp add: registered_ok_get_defaults)
next
  case (after_add_parameter s param_name bijection')
  then show ?case by (simp add: registered_ok_add_parameter)
qed

lemma calls_frame:
  assumes "registered_ok s" and "config_global s = Some a"
  shows "registered_ok (calls n s) \<and> config_global (calls n s) = Some a
         \<and> next_addr s \<le> next_addr (calls n s)
         \<and> (\<forall>x<next_addr s. heap (calls n s) x = heap s x)"
  using assms
proof (induction n arbitrary: s)
  case 0
  then show ?case by simp
next
  case (Suc n)
  let ?s1 = "snd (get_defaults s)"
  have ok1: "registered_ok ?s1" by (rule registered_ok_get_defaults [OF Suc.prems(1)])
  have reg1: "config_global ?s1 = Some a" by (rule get_defaults_frame(2) [OF Suc.prems])
  have nx: "next_addr ?s1 = Suc (Suc (next_addr s))" by (rule get_defaults_frame(3) [OF Suc.prems])
  have fr: "\<forall>x<next_addr s. heap ?s1 x = heap s x"
    using get_defaults_frame(4) [OF Suc.prems] by simp
  from Suc.IH [OF ok1 reg1] nx fr show ?case by simp
qed


lemma calls_Suc_right: "calls (Suc n) s = snd (get_defaults (calls n s))"
  by (induction n arbitrary: s) simp_all

lemma get_defaults_registers_result:
  assumes "registered_ok s"
  shows "config_global (snd (get_defaults s)) = Some (fst (get_defaults s))"
proof (cases "config_global s")
  case None
  then show ?thesis by (simp add: get_defaults_first)
next
  case (Some a)
  then show ?thesis using assms by (simp add: get_defaults_frame)
qed

lemma transformation_entry_calls:
  assumes ok: "registered_ok s" and reg: "config_global s = Some a"
  shows "transformation_entry (calls n s) a k = transformation_entry s a k"
proof -
  from ok reg obtain d t td where a: "a < next_addr s" and d: "heap s a = Some d"
    and t: "map_of d ''transformations'' = Some (ConfigDictRef t)" "t < next_addr s"
    by (auto simp: registered_ok_def)
  from calls_frame [OF ok reg, of n] a t(2)
  have "heap (calls n s) a = heap s a" "heap (calls n s) t = heap s t" by simp_all
  then show ?thesis using d t(1) by (simp add: transformation_entry_def)
qed

lemma lookup_name_differs: "param_name @ ''_transform'' \<noteq> param_name"
proof
  assume "param_name @ ''_transform'' = param_name"
  then have "length (param_name @ ''_transform'') = length param_name" by simp
  then show False by simp
qed

lemma add_parameter_entries:
  assumes ok: "registered_ok s"
    and ret: "add_parameter validate param_name bijection' s = (None, s1)"
  shows "\<exists>a. config_global s1 = Some a
           \<and> transformation_entry s1 a (param_name @ ''_transform'') = Some (Bijection bijection')
           \<and> transformation_entry s1 a param_name = Some (Str (param_name @ ''_transform''))"
proof -
  let ?s0 = "snd (get_defaults s)"
  let ?k1 = "param_name @ ''_transform''"
  have ok0: "registered_ok ?s0" by (rule registered_ok_get_defaults [OF ok])
  from ret obtain t where gt: "global_transformations ?s0 = Inr t"
    by (cases "global_transformations ?s0") (simp_all add: add_parameter_def Let_def)
  from global_transformations_Inr [OF gt] obtain a d where
    reg: "config_global ?s0 = Some a" and d: "heap ?s0 a = Some d"
    and tr: "map_of d ''transformations'' = Some (ConfigDictRef t)" by blast
  from ok0 reg d tr obtain td where ta: "t \<noteq> a" and td: "heap ?s0 t = Some td"
    by (auto simp: registered_ok_def)
  from ret gt td have v1: "validate td ?k1 (Bijection bijection') = None"
    by (cases "validate td ?k1 (Bijection bijection')")
       (simp_all add: add_parameter_def Let_def setitem_def)
  let ?td2 = "AList.update ?k1 (Bijection bijection') td"
  let ?s2 = "?s0\<lparr>heap := (heap ?s0)(t \<mapsto> ?td2)\<rparr>"
  have set1: "setitem validate t ?k1 (Bijection bijection') ?s0 = (None, ?s2)"
    by (simp add: setitem_def td v1)
  have gt2: "global_transformations ?s2 = Inr t"
    using reg d tr ta by (simp add: global_transformations_def)
  from ret gt set1 gt2
  have set2: "setitem validate t param_name (Str ?k1) ?s2 = (None, s1)"
    by (simp add: add_parameter_def Let_def)
  then have v2: "validate ?td2 param_name (Str ?k1) = None"
    by (cases "validate ?td2 param_name (Str ?k1)") (simp_all add: setitem_def)
  let ?td3 = "AList.update param_name (Str ?k1) ?td2"
  from set2 v2 have s1: "s1 = ?s2\<lparr>heap := (heap ?s2)(t \<mapsto> ?td3)\<rparr>"
    by (simp add: setitem_def)
  have reg1: "config_global s1 = Some a" by (simp add: s1 reg)
  have ha: "heap s1 a = Some d" using ta d by (simp add: s1)
  have ht: "heap s1 t = Some ?td3" by (simp add: s1)
  have e1: "map_of ?td3 ?k1 = Some (Bijection bijection')"
    using lookup_name_differs [of param_name] by (simp add: update_conv')
  have e2: "map_of ?td3 param_name = Some (Str ?k1)"
    by (simp add: update_conv')
  from reg1 ha ht tr e1 e2 show ?thesis
    by (simp add: transformation_entry_def)
qed

lemma add_parameter_accepted:
  assumes ok: "registered_ok s" and acc: "\<forall>d k v. validate d k v = None"
  shows "fst (add_parameter validate param_name bijection' s) = None"
proof -
  let ?s0 = "snd (get_defaults s)"
  have ok0: "registered_ok ?s0" by (rule registered_ok_get_defaults [OF ok])
  from get_defaults_registers_result [OF ok] obtain a where reg: "config_global ?s0 = Some a" by blast
  from ok0 reg obtain d t td where d: "heap ?s0 a = Some d"
    and tr: "map_of d ''transformations'' = Some (ConfigDictRef t)"
    and ta: "t \<noteq> a" and td: "heap ?s0 t = Some td"
    by (auto simp: registered_ok_def)
  have gt: "global_transformations ?s0 = Inr t"
    using reg d tr by (simp add: global_transformations_def)
  show ?thesis
    using gt reg d tr ta td acc
    by (simp add: add_parameter_def Let_def setitem_def global_transformations_def)
qed

text \<open>
  C10. In every state the module can reach, the first call of \<^verbatim>\<open>get_defaults\<close> fixes the
  object: every later call returns the very same \<^verbatim>\<open>ConfigDict\<close>, never the one it has just
  built, which is dropped. And when \<^verbatim>\<open>add_parameter(param_name, bijection)\<close> has returned,
  the registered object holds both entries, \<open>param_name_transform \<mapsto> bijection\<close> and
  \<open>param_name \<mapsto> param_name_transform\<close>, in its transformations, and so does the object
  returned by \<^verbatim>\<open>get_defaults\<close> after any number of further calls of \<^verbatim>\<open>get_defaults\<close>.
\<close>

theorem get_defaults_never_resets:
  assumes r: "reachable validate s"
  shows "(\<forall>n. fst (get_defaults (calls n (snd (get_defaults s)))) = fst (get_defaults s)
            \<and> fst (get_defaults (calls n (snd (get_defaults s))))
                \<noteq> next_addr (calls n (snd (get_defaults s))))
       \<and> (\<forall>param_name bijection' s1 n.
            add_parameter validate param_name bijection' s = (None, s1) \<longrightarrow>
            (\<exists>a. config_global s1 = Some a
               \<and> fst (get_defaults (calls n s1)) = a
               \<and> transformation_entry (snd (get_defaults (calls n s1))) a (param_name @ ''_transform'')
                   = Some (Bijection bijection')
               \<and> transformation_entry (snd (get_defaults (calls n s1))) a param_name
                   = Some (Str (param_name @ ''_transform''))))"
proof -
  have ok: "registered_ok s" by (rule reachable_registered_ok [OF r])
  have part1: "\<forall>n. fst (get_defaults (calls n (snd (get_defaults s)))) = fst (get_defaults s)
            \<and> fst (get_defaults (calls n (snd (get_defaults s))))
                \<noteq> next_addr (calls n (snd (get_defaults s)))"
  proof
    fix n
    let ?s' = "snd (get_defaults s)" and ?a = "fst (get_defaults s)"
    have ok': "registered_ok ?s'" by (rule registered_ok_get_defaults [OF ok])
    have reg': "config_global ?s' = Some ?a" by (rule get_defaults_registers_result [OF ok])
    from calls_frame [OF ok' reg', of n]
    have okn: "registered_ok (calls n ?s')" and regn: "config_global (calls n ?s') = Some ?a"
      by simp_all
    have same: "fst (get_defaults (calls n ?s')) = ?a" by (rule get_defaults_frame(1) [OF okn regn])
    from okn regn have "?a < next_addr (calls n ?s')" by (simp add: registered_ok_def)
    with same show "fst (get_defaults (calls n ?s')) = ?a
        \<and> fst (get_defaults (calls n ?s')) \<noteq> next_addr (calls n ?s')" by simp
  qed
  have part2: "\<forall>param_name bijection' s1 n.
            add_parameter validate param_name bijection' s = (None, s1) \<longrightarrow>
            (\<exists>a. config_global s1 = Some a
               \<and> fst (get_defaults (calls n s1)) = a
               \<and> transformation_entry (snd (get_defaults (calls n s1))) a (param_name @ ''_transform'')
                   = Some (Bijection bijection')
               \<and> transformation_entry (snd (get_defaults (calls n s1))) a param_name
                   = Some (Str (param_name @ ''_transform'')))"
  proof (intro allI impI)
    fix param_name bijection' s1 n
    assume ret: "add_parameter validate param_name bijection' s = (None, s1)"
    from add_parameter_entries [OF ok ret] obtain a where reg1: "config_global s1 = Some a"
      and e1: "transformation_entry s1 a (param_name @ ''_transform'') = Some (Bijection bijection')"
      and e2: "transformation_entry s1 a param_name = Some (Str (param_name @ ''_transform''))"
      by blast
    have "registered_ok (snd (add_parameter validate param_name bijection' s))"
      by (rule registered_ok_add_parameter [OF ok])
    then have ok1: "registered_ok s1" by (simp add: ret)
    from calls_frame [OF ok1 reg1, of n]
    have okn: "registered_ok (calls n s1)" and regn: "config_global (calls n s1) = Some a"
      by simp_all
    have same: "fst (get_defaults (calls n s1)) = a" by (rule get_defaults_frame(1) [OF okn regn])
    have keep: "transformation_entry (snd (get_defaults (calls n s1))) a k = transformation_entry s1 a k" for k
      using transformation_entry_calls [OF ok1 reg1, of "Suc n" k]
      by (simp only: calls_Suc_right)
    from reg1 same e1 e2 show "\<exists>a. config_global s1 = Some a
               \<and> fst (get_defaults (calls n s1)) = a
               \<and> transformation_entry (snd (get_defaults (calls n s1))) a (param_name @ ''_transform'')
                   = Some (Bijection bijection')
               \<and> transformation_entry (snd (get_defaults (calls n s1))) a param_name
                   = Some (Str (param_name @ ''_transform''))"
      by (simp add: keep)
  qed
  from part1 part2 show ?thesis by blast
qed


lemma example_add_parameter_returns:
  "fst (add_parameter typed_validate ''amplitude'' (OtherTransform ''ExpTransform'') initial_state) = None"
  by (simp add: add_parameter_def get_defaults_def initial_state_def Let_def truthy_def
      global_transformations_def setitem_def typed_validate_def default_transformations_def)

theorem get_defaults_never_resets_witness:
  "fst (get_defaults (calls 2 (snd (get_defaults initial_state)))) = fst (get_defaults initial_state)
   \<and> fst (get_defaults initial_state) = 0
   \<and> fst (add_parameter typed_validate ''amplitude'' (OtherTransform ''ExpTransform'') initial_state) = None
   \<and> (\<exists>a. config_global (snd (add_parameter typed_validate ''amplitude'' (OtherTransform ''ExpTransform'')
                initial_state)) = Some a
        \<and> fst (get_defaults (calls 2 (snd (add_parameter typed_validate ''amplitude''
                (OtherTransform ''ExpTransform'') initial_state)))) = a
        \<and> transformation_entry (snd (get_defaults (calls 2 (snd (add_parameter typed_validate ''amplitude''
                (OtherTransform ''ExpTransform'') initial_state))))) a ''amplitude_transform''
            = Some (Bijection (OtherTransform ''ExpTransform''))
        \<and> transformation_entry (snd (get_defaults (calls 2 (snd (add_parameter typed_validate ''amplitude''
                (OtherTransform ''ExpTransform'') initial_state))))) a ''amplitude''
            = Some (Str ''amplitude_transform''))"
proof -
  let ?r = "add_parameter typed_validate ''amplitude'' (OtherTransform ''ExpTransform'') initial_state"
  have reach: "reachable typed_validate initial_state" by (rule reachable.start)
  have ret: "?r = (None, snd ?r)"
    using example_add_parameter_returns by (simp add: prod_eq_iff)
  have first: "fst (get_defaults initial_state) = 0"
    by (simp add: get_defaults_def initial_state_def Let_def)
  note main = get_defaults_never_resets [OF reach]
  from main have a: "fst (get_defaults (calls 2 (snd (get_defaults initial_state))))
      = fst (get_defaults initial_state)" by blast
  from main ret have b: "\<exists>a. config_global (snd ?r) = Some a
        \<and> fst (get_defaults (calls 2 (snd ?r))) = a
        \<and> transformation_entry (snd (get_defaults (calls 2 (snd ?r)))) a (''amplitude'' @ ''_transform'')
            = Some (Bijection (OtherTransform ''ExpTransform''))
        \<and> transformation_entry (snd (get_defaults (calls 2 (snd ?r)))) a ''amplitude''
            = Some (Str (''amplitude'' @ ''_transform''))" by blast
  from a first example_add_parameter_returns b show ?thesis by simp
qed

end
